theory Spec2Isabelle
  imports Complex_Main "HOL-Library.Sublist"
begin

section \<open>Python string primitives used by the SMILES encoder notebook\<close>

text \<open>
  Strings are lists of characters. The notebook only applies three built-in string
  operations to them: the substring test \<^verbatim>\<open>old in s\<close>, \<^verbatim>\<open>s.replace(old, new)\<close>
  and \<^verbatim>\<open>s.split()\<close> (split on runs of whitespace). A \<^typ>\<open>char\<close> is read as a
  code point below 256; SMILES strings are ASCII.
\<close>

definition py_isspace :: "char \<Rightarrow> bool" where
  \<comment> \<open>the code points below 256 for which Python's \<^verbatim>\<open>str.isspace\<close> holds\<close>
  "py_isspace c =
     (of_char c \<in> {9, 10, 11, 12, 13, 28, 29, 30, 31, 32, 133, 160 :: nat})"

fun py_in :: "string \<Rightarrow> string \<Rightarrow> bool" where
  \<comment> \<open>\<^verbatim>\<open>old in s\<close>\<close>
  "py_in old [] = (old = [])"
| "py_in old (c # cs) = (prefix old (c # cs) \<or> py_in old cs)"

function py_replace :: "string \<Rightarrow> string \<Rightarrow> string \<Rightarrow> string" where
  \<comment> \<open>\<^verbatim>\<open>s.replace(old, new)\<close>: leftmost non-overlapping occurrences; an empty
      \<^verbatim>\<open>old\<close> matches before every character and at the end\<close>
  "py_replace old new s =
     (if old = [] then new @ concat (map (\<lambda>c. c # new) s)
      else if prefix old s then new @ py_replace old new (drop (length old) s)
      else (case s of [] \<Rightarrow> [] | c # cs \<Rightarrow> c # py_replace old new cs))"
  by pat_completeness auto
termination
  by (relation "measure (\<lambda>(old, new, s). length s)") (auto simp: prefix_def)

declare py_replace.simps [simp del]

fun split_from :: "string \<Rightarrow> string \<Rightarrow> string list" where
  \<comment> \<open>the scan behind \<^verbatim>\<open>s.split()\<close>: the first argument is the word being read\<close>
  "split_from cur [] = (if cur = [] then [] else [cur])"
| "split_from cur (c # cs) =
     (if py_isspace c then (if cur = [] then split_from [] cs else cur # split_from [] cs)
      else split_from (cur @ [c]) cs)"

definition py_split :: "string \<Rightarrow> string list" where
  "py_split s = split_from [] s"

section \<open>Tokenizer\<close>

definition tokenizer_step :: "string \<Rightarrow> string \<Rightarrow> string" where
  \<comment> \<open>the body of the loop of \<^verbatim>\<open>custom_tokenizer\<close> for one token\<close>
  "tokenizer_step smiles_string token =
     (if py_in token smiles_string
      then py_replace token ('' '' @ token @ '' '') smiles_string
      else smiles_string)"

definition custom_tokenizer :: "string list \<Rightarrow> string \<Rightarrow> string list" where
  \<comment> \<open>\<^verbatim>\<open>custom_tokens\<close> is a global of the notebook; here it is the first argument\<close>
  "custom_tokenizer custom_tokens smiles_string =
     py_split (foldl tokenizer_step smiles_string custom_tokens)"

section \<open>Vocabulary, encoding and padding\<close>

text \<open>
  The notebook builds one global torchtext vocabulary with the four special tokens first
  and then sets its default index to the id of \<^verbatim>\<open><unk>\<close>. The list of the other
  entries, in torchtext's order, is the argument \<open>tokens\<close> below. A vocabulary is its
  index-to-token table together with the default index that \<^verbatim>\<open>vocab[token]\<close>
  returns for a token that is not in the table.
\<close>

datatype py_error = RuntimeError | ZeroDivisionError | IndexError

record vocab =
  itos :: "string list"
  default_index :: int

definition specials :: "string list" where
  "specials = [''<pad>'', ''<unk>'', ''<sos>'', ''<eos>'']"

fun index_of :: "'a \<Rightarrow> 'a list \<Rightarrow> nat option" where
  "index_of x [] = None"
| "index_of x (y # ys) = (if x = y then Some 0 else map_option Suc (index_of x ys))"

definition vocab_getitem :: "vocab \<Rightarrow> string \<Rightarrow> int" where
  \<comment> \<open>\<^verbatim>\<open>vocab[token]\<close>, once the default index is set\<close>
  "vocab_getitem v token =
     (case index_of token (itos v) of Some i \<Rightarrow> int i | None \<Rightarrow> default_index v)"

definition lookup_token :: "vocab \<Rightarrow> int \<Rightarrow> py_error + string" where
  \<comment> \<open>\<^verbatim>\<open>vocab.lookup_token(idx)\<close> raises a RuntimeError out of range\<close>
  "lookup_token v idx =
     (if 0 \<le> idx \<and> idx < int (length (itos v)) then Inr (itos v ! nat idx)
      else Inl RuntimeError)"

definition build_vocab :: "string list \<Rightarrow> vocab" where
  \<comment> \<open>\<^verbatim>\<open>build_vocab_from_iterator(..., specials=[...])\<close> followed by
      \<^verbatim>\<open>vocab.set_default_index(vocab["<unk>"])\<close>\<close>
  "build_vocab tokens =
     (let table = specials @ tokens
      in \<lparr>itos = table,
          default_index = (case index_of ''<unk>'' table of Some i \<Rightarrow> int i | None \<Rightarrow> 0)\<rparr>)"

definition encode_smiles_to_indices :: "string list \<Rightarrow> vocab \<Rightarrow> string \<Rightarrow> int list" where
  "encode_smiles_to_indices custom_tokens v smiles =
     [vocab_getitem v ''<sos>'']
       @ map (vocab_getitem v) (custom_tokenizer custom_tokens smiles)
       @ [vocab_getitem v ''<eos>'']"

definition pad_sequence :: "vocab \<Rightarrow> int list \<Rightarrow> int \<Rightarrow> int list" where
  \<comment> \<open>Python's \<^verbatim>\<open>[x] * n\<close> is the empty list for \<open>n \<le> 0\<close>\<close>
  "pad_sequence v seq max_len =
     seq @ replicate (nat (max_len - int (length seq))) (vocab_getitem v ''<pad>'')"

section \<open>Decoding the model output\<close>

text \<open>
  \<^verbatim>\<open>decode_sequence\<close> runs the network, takes the argmax of every position and walks
  through the resulting ids. The network is not modelled: the argument below is the id
  sequence \<^verbatim>\<open>output.argmax(dim=-1).squeeze().tolist()\<close>.
\<close>

fun decode_loop :: "vocab \<Rightarrow> int list \<Rightarrow> string list \<Rightarrow> py_error + string list" where
  "decode_loop v [] decoded_tokens = Inr decoded_tokens"
| "decode_loop v (token_idx # rest) decoded_tokens =
     (case lookup_token v token_idx of
        Inl e \<Rightarrow> Inl e
      | Inr token \<Rightarrow>
          if token = ''<eos>'' then Inr decoded_tokens
          else decode_loop v rest (decoded_tokens @ [token]))"

definition decode_sequence :: "vocab \<Rightarrow> int list \<Rightarrow> py_error + string" where
  "decode_sequence v output_tokens =
     (case decode_loop v output_tokens [] of
        Inl e \<Rightarrow> Inl e
      | Inr decoded_tokens \<Rightarrow>
          Inr (py_replace ''<eos>'' ''''
                (py_replace ''<sos>'' ''''
                  (py_replace ''<pad>'' '''' (concat decoded_tokens)))))"

section \<open>Reconstruction evaluator\<close>

text \<open>
  \<^verbatim>\<open>evaluate_reconstruction\<close> decodes every string with the network in memory. The
  argument \<open>decode\<close> stands for \<^verbatim>\<open>decode_sequence(smiles_to_padded_tensor(smiles))\<close>
  with that network. \<^verbatim>\<open>Levenshtein.distance\<close> is the unit-cost edit distance and
  \<^verbatim>\<open>str.upper\<close> is modelled on ASCII letters. The printing of mismatches does not
  change the result and is left out. The divisions are Python's true division, over the
  reals here; dividing by zero raises.
\<close>

definition py_upper :: "string \<Rightarrow> string" where
  "py_upper s =
     map (\<lambda>c. if 97 \<le> (of_char c :: nat) \<and> (of_char c :: nat) \<le> 122
               then char_of (of_char c - 32 :: nat) else c) s"

fun levenshtein :: "string \<Rightarrow> string \<Rightarrow> nat" where
  "levenshtein [] ys = length ys"
| "levenshtein (x # xs) [] = Suc (length xs)"
| "levenshtein (x # xs) (y # ys) =
     min (min (levenshtein xs (y # ys) + 1) (levenshtein (x # xs) ys + 1))
         (levenshtein xs ys + (if x = y then 0 else 1))"

record eval_counters =
  correct_count :: nat
  total_levenshtein_distance :: nat
  total_mismatched_smiles_length :: nat
  mismatched_count :: nat

definition eval_step :: "(string \<Rightarrow> string) \<Rightarrow> eval_counters \<Rightarrow> string \<Rightarrow> eval_counters" where
  "eval_step decode st smiles =
     (let decoded_smiles = decode smiles
      in if smiles = decoded_smiles then st\<lparr>correct_count := correct_count st + 1\<rparr>
         else st\<lparr>mismatched_count := mismatched_count st + 1,
                 total_levenshtein_distance :=
                   total_levenshtein_distance st + levenshtein (py_upper smiles) decoded_smiles,
                 total_mismatched_smiles_length :=
                   total_mismatched_smiles_length st + length smiles\<rparr>)"

definition evaluate_reconstruction ::
    "(string \<Rightarrow> string) \<Rightarrow> string list \<Rightarrow> py_error + real \<times> real \<times> real" where
  "evaluate_reconstruction decode smiles_list =
     (let st = foldl (eval_step decode)
                 \<lparr>correct_count = 0, total_levenshtein_distance = 0,
                  total_mismatched_smiles_length = 0, mismatched_count = 0\<rparr> smiles_list;
          total_count = length smiles_list
      in if total_count = 0 then Inl ZeroDivisionError
         else
           let accuracy = real (correct_count st) / real total_count * 100
           in if mismatched_count st > 0
              then Inr (accuracy,
                        real (total_levenshtein_distance st) / real (mismatched_count st),
                        real (total_mismatched_smiles_length st) / real (mismatched_count st))
              else Inr (accuracy, 0, 0))"

section \<open>Double-precision arithmetic of the early-stopping test\<close>

text \<open>
  The validation losses, \<^verbatim>\<open>best_val_loss\<close> and \<^verbatim>\<open>min_delta\<close> are Python floats,
  that is IEEE binary64 numbers. \<open>Finite m e\<close> is the number \<open>m \<cdot> 2\<^sup>e\<close>; the two
  zeros are not told apart, which no comparison can observe. The early-stopping test uses
  one subtraction and one comparison: the subtraction is exact and then rounded to the
  nearest binary64 number, ties to the even significand, with gradual underflow and
  overflow to infinity; every comparison with a not-a-number is false.
\<close>

datatype double = NaN | PInf | NInf | Finite int int

function bit_length :: "int \<Rightarrow> int" where
  "bit_length x = (if 0 < x then bit_length (x div 2) + 1 else 0)"
  by pat_completeness auto
termination
  by (relation "measure nat") auto

declare bit_length.simps [simp del]

definition round_to_double :: "int \<Rightarrow> int \<Rightarrow> double" where
  "round_to_double m e =
     (let shift = max (bit_length \<bar>m\<bar> - 53) (- 1074 - e);
          m' = (if shift \<le> 0 then m
                else let q = m div 2 ^ nat shift;
                         r = m mod 2 ^ nat shift;
                         half = 2 ^ (nat shift - 1)
                     in if r < half then q
                        else if half < r then q + 1
                        else if even q then q else q + 1);
          e' = (if shift \<le> 0 then e else e + shift)
      in if 1024 < bit_length \<bar>m'\<bar> + e' then (if m < 0 then NInf else PInf)
         else Finite m' e')"

fun double_sub :: "double \<Rightarrow> double \<Rightarrow> double" where
  "double_sub NaN y = NaN"
| "double_sub x NaN = NaN"
| "double_sub PInf PInf = NaN"
| "double_sub NInf NInf = NaN"
| "double_sub PInf y = PInf"
| "double_sub NInf y = NInf"
| "double_sub (Finite m e) PInf = NInf"
| "double_sub (Finite m e) NInf = PInf"
| "double_sub (Finite m1 e1) (Finite m2 e2) =
     (let e = min e1 e2
      in round_to_double (m1 * 2 ^ nat (e1 - e) - m2 * 2 ^ nat (e2 - e)) e)"

fun double_less :: "double \<Rightarrow> double \<Rightarrow> bool" where
  "double_less NaN y = False"
| "double_less x NaN = False"
| "double_less PInf y = False"
| "double_less NInf NInf = False"
| "double_less NInf y = True"
| "double_less (Finite m e) PInf = True"
| "double_less (Finite m e) NInf = False"
| "double_less (Finite m1 e1) (Finite m2 e2) =
     (let e = min e1 e2 in m1 * 2 ^ nat (e1 - e) < m2 * 2 ^ nat (e2 - e))"

section \<open>Early stopping in the training loop of the expression transformer\<close>

text \<open>
  The loop of \<^verbatim>\<open>STEP02_Transformer.ipynb\<close> computes one validation loss per epoch
  and then runs the early-stopping block. The model takes the validation losses of the
  epochs of \<^verbatim>\<open>range(epochs)\<close> as a list, so the length of the list is the epoch
  budget. \<^verbatim>\<open>best_val_loss\<close> starts as \<^verbatim>\<open>float("inf")\<close>. \<open>saved_epoch\<close> is the
  epoch, counted from 1 as the notebook prints it, of the last \<^verbatim>\<open>torch.save\<close> inside
  the loop. The second component of the result is the epoch at which early stopping was
  triggered, or \<open>None\<close> when the budget was used up. The notebook fixes
  \<^verbatim>\<open>patience = 20\<close> and \<^verbatim>\<open>min_delta = 1e-4\<close>; they are arguments here.
\<close>

record es_state =
  best_val_loss :: double
  patience_counter :: nat
  saved_epoch :: "nat option"

definition early_stopping :: "double \<Rightarrow> nat \<Rightarrow> double \<Rightarrow> es_state \<Rightarrow> es_state" where
  "early_stopping min_delta epoch epoch_val_loss st =
     (if double_less epoch_val_loss (double_sub (best_val_loss st) min_delta)
      then \<lparr>best_val_loss = epoch_val_loss, patience_counter = 0,
            saved_epoch = Some (epoch + 1)\<rparr>
      else st\<lparr>patience_counter := patience_counter st + 1\<rparr>)"

fun training_loop ::
    "int \<Rightarrow> double \<Rightarrow> nat \<Rightarrow> double list \<Rightarrow> es_state \<Rightarrow> es_state \<times> nat option" where
  "training_loop patience min_delta epoch [] st = (st, None)"
| "training_loop patience min_delta epoch (epoch_val_loss # rest) st =
     (let st' = early_stopping min_delta epoch epoch_val_loss st
      in if patience \<le> int (patience_counter st') then (st', Some (epoch + 1))
         else training_loop patience min_delta (epoch + 1) rest st')"

definition train :: "int \<Rightarrow> double \<Rightarrow> double list \<Rightarrow> es_state \<times> nat option" where
  "train patience min_delta val_losses =
     training_loop patience min_delta 0 val_losses
       \<lparr>best_val_loss = PInf, patience_counter = 0, saved_epoch = None\<rparr>"

section \<open>Training criterion of the SMILES encoder\<close>

text \<open>
  \<^verbatim>\<open>nn.CrossEntropyLoss(ignore_index=vocab["<pad>"])\<close> with its default mean
  reduction, as torch documents it: the mean, over the positions whose target is not the
  ignored index, of minus the logarithm of the softmax of the logits at the target. A
  batch is the list of its (logits, target) rows. A target outside the classes raises an
  IndexError; \<open>None\<close> is the not-a-number that torch returns when every target is
  ignored.
\<close>

definition cross_entropy_loss :: "int \<Rightarrow> (real list \<times> int) list \<Rightarrow> py_error + real option" where
  "cross_entropy_loss ignore_index batch =
     (let kept = filter (\<lambda>(logits, target). target \<noteq> ignore_index) batch
      in if list_ex (\<lambda>(logits, target). target < 0 \<or> int (length logits) \<le> target) kept
         then Inl IndexError
         else if kept = [] then Inr None
         else Inr (Some ((\<Sum>(logits, target)\<leftarrow>kept.
                            - ln (exp (logits ! nat target) / (\<Sum>c\<leftarrow>logits. exp c)))
                         / real (length kept))))"

definition criterion :: "vocab \<Rightarrow> (real list \<times> int) list \<Rightarrow> py_error + real option" where
  "criterion v batch = cross_entropy_loss (vocab_getitem v ''<pad>'') batch"

section \<open>Subword vocabulary builder\<close>








section \<open>Properties of the string primitives\<close>

lemma py_isspace_space: "py_isspace CHR '' ''"
  by (simp add: py_isspace_def)

lemma concat_split_from:
  "concat (split_from cur s) = cur @ filter (\<lambda>c. \<not> py_isspace c) s"
  by (induction cur s rule: split_from.induct) auto

lemma concat_py_split: "concat (py_split s) = filter (\<lambda>c. \<not> py_isspace c) s"
  by (simp add: py_split_def concat_split_from)

lemma filter_space_insert_empty:
  "filter (\<lambda>c. \<not> py_isspace c) (concat (map (\<lambda>c. c # ''  '') s))
     = filter (\<lambda>c. \<not> py_isspace c) s"
  by (induction s) (auto simp: py_isspace_space)

lemma filter_space_py_replace:
  "filter (\<lambda>c. \<not> py_isspace c) (py_replace token ('' '' @ token @ '' '') s)
     = filter (\<lambda>c. \<not> py_isspace c) s"
proof (induction token "'' '' @ token @ '' ''" s rule: py_replace.induct)
  case (1 old s)
  show ?case
  proof (cases "old = []")
    case True
    then show ?thesis
      by (subst py_replace.simps) (simp add: py_isspace_space filter_space_insert_empty)
  next
    case False
    show ?thesis
    proof (cases "prefix old s")
      case True
      then obtain rest where s: "s = old @ rest"
        by (auto simp: prefix_def)
      have "filter (\<lambda>c. \<not> py_isspace c) (py_replace old ('' '' @ old @ '' '') (drop (length old) s))
              = filter (\<lambda>c. \<not> py_isspace c) (drop (length old) s)"
        using "1.hyps"(1) False True by simp
      then show ?thesis
        using False True s by (subst py_replace.simps) (simp add: py_isspace_space)
    next
      case np: False
      show ?thesis
      proof (cases s)
        case Nil
        then show ?thesis using False np by (subst py_replace.simps) simp
      next
        case (Cons c cs)
        have "filter (\<lambda>c. \<not> py_isspace c) (py_replace old ('' '' @ old @ '' '') cs)
                = filter (\<lambda>c. \<not> py_isspace c) cs"
          using "1.hyps"(2) False np Cons by simp
        then show ?thesis
          using False np Cons by (subst py_replace.simps) simp
      qed
    qed
  qed
qed

lemma filter_space_tokenizer_step:
  "filter (\<lambda>c. \<not> py_isspace c) (tokenizer_step s token) = filter (\<lambda>c. \<not> py_isspace c) s"
  using filter_space_py_replace [of token s] by (simp add: tokenizer_step_def)

lemma filter_space_foldl_step:
  "filter (\<lambda>c. \<not> py_isspace c) (foldl tokenizer_step s tokens)
     = filter (\<lambda>c. \<not> py_isspace c) s"
  by (induction tokens arbitrary: s) (simp_all add: filter_space_tokenizer_step)

lemma concat_custom_tokenizer:
  "concat (custom_tokenizer custom_tokens s) = filter (\<lambda>c. \<not> py_isspace c) s"
  by (simp add: custom_tokenizer_def concat_py_split filter_space_foldl_step)

section \<open>Properties of the vocabulary\<close>

lemma index_of_None: "index_of x xs = None \<longleftrightarrow> x \<notin> set xs"
  by (induction xs) auto

lemma index_of_Some: "index_of x xs = Some i \<Longrightarrow> i < length xs \<and> xs ! i = x"
  by (induction xs arbitrary: i) (auto split: if_splits)

lemma itos_build_vocab: "itos (build_vocab tokens) = specials @ tokens"
  by (simp add: build_vocab_def Let_def)

lemma default_index_build_vocab: "default_index (build_vocab tokens) = 1"
  by (simp add: build_vocab_def Let_def specials_def)

lemma getitem_pad: "vocab_getitem (build_vocab tokens) ''<pad>'' = 0"
  by (simp add: vocab_getitem_def itos_build_vocab specials_def)

lemma getitem_unk: "vocab_getitem (build_vocab tokens) ''<unk>'' = 1"
  by (simp add: vocab_getitem_def itos_build_vocab specials_def)

lemma getitem_sos: "vocab_getitem (build_vocab tokens) ''<sos>'' = 2"
  by (simp add: vocab_getitem_def itos_build_vocab specials_def)

lemma getitem_eos: "vocab_getitem (build_vocab tokens) ''<eos>'' = 3"
  by (simp add: vocab_getitem_def itos_build_vocab specials_def)

lemma getitem_absent:
  "token \<notin> set (itos v) \<Longrightarrow> vocab_getitem v token = default_index v"
  by (simp add: vocab_getitem_def index_of_None [THEN iffD2])

lemma lookup_getitem:
  assumes "token \<in> set (itos v)"
  shows "lookup_token v (vocab_getitem v token) = Inr token"
proof -
  from assms obtain i where i: "index_of token (itos v) = Some i"
    using index_of_None [of token "itos v"] by (cases "index_of token (itos v)") auto
  from index_of_Some [OF i] show ?thesis
    by (simp add: vocab_getitem_def lookup_token_def i)
qed

section \<open>Properties of replacement and of the decoding loop\<close>

lemma py_replace_Nil: "py_replace old new [] = (if old = [] then new else [])"
  by (subst py_replace.simps) simp

lemma py_replace_skip:
  "c0 \<notin> set t \<Longrightarrow> py_replace (c0 # ob) new (t @ rest) = t @ py_replace (c0 # ob) new rest"
proof (induction t)
  case Nil
  then show ?case by simp
next
  case (Cons c t)
  then have "py_replace (c0 # ob) new (c # t @ rest) = c # py_replace (c0 # ob) new (t @ rest)"
    by (subst py_replace.simps) auto
  with Cons show ?case by simp
qed

lemma py_replace_self:
  "old \<noteq> [] \<Longrightarrow> py_replace old new (old @ rest) = new @ py_replace old new rest"
  by (subst py_replace.simps) simp

lemma prefix_same_length:
  "length ob = length b \<Longrightarrow> prefix ob (b @ rest) \<longleftrightarrow> ob = b"
  by (auto simp: prefix_def)

lemma py_replace_other_marker:
  assumes "c0 \<notin> set b" "length b = length ob" "b \<noteq> ob"
  shows "py_replace (c0 # ob) new ((c0 # b) @ rest) = (c0 # b) @ py_replace (c0 # ob) new rest"
proof -
  have "\<not> prefix ob (b @ rest)"
    using assms prefix_same_length [of ob b rest] by auto
  then have "py_replace (c0 # ob) new (c0 # b @ rest) = c0 # py_replace (c0 # ob) new (b @ rest)"
    by (subst py_replace.simps) simp
  then show ?thesis
    using assms(1) by (simp add: py_replace_skip)
qed

lemma py_replace_concat:
  assumes "\<forall>t \<in> set ts. c0 \<notin> set t \<or> (\<exists>b. t = c0 # b \<and> c0 \<notin> set b \<and> length b = length ob)"
  shows "py_replace (c0 # ob) [] (concat ts) = concat (filter (\<lambda>t. t \<noteq> c0 # ob) ts)"
  using assms
proof (induction ts)
  case Nil
  then show ?case by (simp add: py_replace_Nil)
next
  case (Cons t ts)
  then have IH: "py_replace (c0 # ob) [] (concat ts) = concat (filter (\<lambda>t. t \<noteq> c0 # ob) ts)"
    by simp
  from Cons.prems consider
      (plain) "c0 \<notin> set t"
    | (marker) b where "t = c0 # b" "c0 \<notin> set b" "length b = length ob"
    by auto
  then show ?case
  proof cases
    case plain
    then have "t \<noteq> c0 # ob" by auto
    with plain IH show ?thesis by (simp add: py_replace_skip)
  next
    case marker
    show ?thesis
    proof (cases "b = ob")
      case True
      with marker IH py_replace_self [of "c0 # ob" "[]" "concat ts"] show ?thesis by simp
    next
      case False
      with marker IH py_replace_other_marker [of c0 b ob "[]" "concat ts"] show ?thesis by simp
    qed
  qed
qed

lemma py_in_skip:
  "c0 \<notin> set t \<Longrightarrow> py_in (c0 # ob) (t @ rest) = py_in (c0 # ob) rest"
  by (induction t) auto

lemma py_in_other_marker:
  assumes "c0 \<notin> set b" "length b = length ob" "b \<noteq> ob"
  shows "py_in (c0 # ob) ((c0 # b) @ rest) = py_in (c0 # ob) rest"
  using assms prefix_same_length [of ob b rest] by (simp add: py_in_skip)

lemma py_in_concat:
  assumes "\<forall>t \<in> set ts. c0 \<notin> set t \<or> (\<exists>b. t = c0 # b \<and> c0 \<notin> set b \<and> length b = length ob \<and> b \<noteq> ob)"
  shows "\<not> py_in (c0 # ob) (concat ts)"
  using assms
proof (induction ts)
  case Nil
  then show ?case by simp
next
  case (Cons t ts)
  then have IH: "\<not> py_in (c0 # ob) (concat ts)" by simp
  from Cons.prems consider
      (plain) "c0 \<notin> set t"
    | (marker) b where "t = c0 # b" "c0 \<notin> set b" "length b = length ob" "b \<noteq> ob"
    by auto
  then show ?case
  proof cases
    case plain
    with IH show ?thesis by (simp add: py_in_skip)
  next
    case marker
    with IH py_in_other_marker [of c0 b ob "concat ts"] show ?thesis by simp
  qed
qed

lemma decode_loop_takeWhile:
  assumes "\<forall>i \<in> set ids. 0 \<le> i \<and> i < int (length (itos v))"
  shows "decode_loop v ids acc
           = Inr (acc @ takeWhile (\<lambda>t. t \<noteq> ''<eos>'') (map (\<lambda>i. itos v ! nat i) ids))"
  using assms by (induction ids arbitrary: acc) (auto simp: lookup_token_def)

section \<open>Claims about the tokenizer, the encoder and padding\<close>

text \<open>
  C10. Tokenization loses no characters: for a string without whitespace, the tokens
  returned by \<^verbatim>\<open>custom_tokenizer\<close>, concatenated in order, are the string itself.
  Every replacement only inserts spaces around an occurrence of a token, so this holds for
  every list of custom tokens, in particular for tokens without whitespace.
\<close>

theorem custom_tokenizer_lossless:
  assumes "\<forall>c \<in> set smiles_string. \<not> py_isspace c"
  shows "concat (custom_tokenizer custom_tokens smiles_string) = smiles_string"
proof -
  have "filter (\<lambda>c. \<not> py_isspace c) smiles_string = smiles_string"
    using assms by (induction smiles_string) auto
  then show ?thesis
    by (simp add: concat_custom_tokenizer)
qed

theorem custom_tokenizer_lossless_witness:
  "custom_tokenizer [''CC'', ''C''] ''CCC'' = [''C'', ''C'', ''C'']
   \<and> concat (custom_tokenizer [''CC'', ''C''] ''CCC'') = ''CCC''"
proof -
  have h: "\<forall>c \<in> set ''CCC''. \<not> py_isspace c"
    by (simp add: py_isspace_def)
  have a: "concat (custom_tokenizer [''CC'', ''C''] ''CCC'') = ''CCC''"
    by (rule custom_tokenizer_lossless [OF h])
  have b: "custom_tokenizer [''CC'', ''C''] ''CCC'' = [''C'', ''C'', ''C'']"
    by code_simp
  from b a show ?thesis by (rule conjI)
qed

text \<open>
  C4. For every SMILES string and every vocabulary of the notebook,
  \<^verbatim>\<open>encode_smiles_to_indices\<close> returns the id of \<^verbatim>\<open><sos>\<close> (2), then for each
  token of \<^verbatim>\<open>custom_tokenizer\<close>, in order, its vocabulary id when the token is in the
  vocabulary and the id of \<^verbatim>\<open><unk>\<close> (1) when it is not, then the id of
  \<^verbatim>\<open><eos>\<close> (3); the length is the number of tokens plus two. The vocabulary id of
  a token in the vocabulary is the index at which \<^verbatim>\<open>lookup_token\<close> gives the token back.
\<close>

theorem encode_smiles_to_indices_correct:
  "encode_smiles_to_indices custom_tokens (build_vocab tokens) smiles
     = [2] @ map (\<lambda>t. if t \<in> set (itos (build_vocab tokens))
                       then vocab_getitem (build_vocab tokens) t else 1)
                 (custom_tokenizer custom_tokens smiles) @ [3]
   \<and> length (encode_smiles_to_indices custom_tokens (build_vocab tokens) smiles)
       = length (custom_tokenizer custom_tokens smiles) + 2
   \<and> vocab_getitem (build_vocab tokens) ''<sos>'' = 2
   \<and> vocab_getitem (build_vocab tokens) ''<eos>'' = 3
   \<and> vocab_getitem (build_vocab tokens) ''<unk>'' = 1
   \<and> (\<forall>t \<in> set (itos (build_vocab tokens)).
         lookup_token (build_vocab tokens) (vocab_getitem (build_vocab tokens) t) = Inr t)"
proof -
  have "vocab_getitem (build_vocab tokens) t
          = (if t \<in> set (itos (build_vocab tokens))
             then vocab_getitem (build_vocab tokens) t else 1)" for t
    by (simp add: getitem_absent default_index_build_vocab)
  then have "map (vocab_getitem (build_vocab tokens)) ts
          = map (\<lambda>t. if t \<in> set (itos (build_vocab tokens))
                      then vocab_getitem (build_vocab tokens) t else 1) ts" for ts
    by (intro map_cong) auto
  then show ?thesis
    by (simp add: encode_smiles_to_indices_def getitem_sos getitem_eos getitem_unk
        lookup_getitem)
qed

theorem encode_smiles_to_indices_correct_witness:
  "encode_smiles_to_indices [''CC'', ''O''] (build_vocab [''CC'', ''N'']) ''CCOCC''
     = [2, 4, 1, 4, 3]
   \<and> lookup_token (build_vocab [''CC'', ''N''])
         (vocab_getitem (build_vocab [''CC'', ''N'']) ''CC'') = Inr ''CC''"
proof -
  note spec = encode_smiles_to_indices_correct
    [of "[''CC'', ''O'']" "[''CC'', ''N'']" "''CCOCC''"]
  have "encode_smiles_to_indices [''CC'', ''O''] (build_vocab [''CC'', ''N'']) ''CCOCC''
     = [2] @ map (\<lambda>t. if t \<in> set (itos (build_vocab [''CC'', ''N'']))
                       then vocab_getitem (build_vocab [''CC'', ''N'']) t else 1)
                 (custom_tokenizer [''CC'', ''O''] ''CCOCC'') @ [3]"
    by (rule spec [THEN conjunct1])
  also have "\<dots> = [2, 4, 1, 4, 3]"
    by code_simp
  finally have ids: "encode_smiles_to_indices [''CC'', ''O''] (build_vocab [''CC'', ''N'']) ''CCOCC''
     = [2, 4, 1, 4, 3]" .
  have "''CC'' \<in> set (itos (build_vocab [''CC'', ''N'']))"
    by (simp add: itos_build_vocab)
  with spec have "lookup_token (build_vocab [''CC'', ''N''])
         (vocab_getitem (build_vocab [''CC'', ''N'']) ''CC'') = Inr ''CC''"
    by blast
  with ids show ?thesis by (rule conjI)
qed

text \<open>
  C2 (as stated): for an input longer than \<open>max_len\<close>, \<^verbatim>\<open>pad_sequence\<close> fails with
  a length error and never returns a sequence longer than \<open>max_len\<close>. The function has
  no length check: for the four ids \<open>[2, 4, 4, 3]\<close> and \<open>max_len = 3\<close> it returns the
  four ids.
\<close>

theorem pad_sequence_returns_longer:
  "pad_sequence (build_vocab [''CC'']) [2, 4, 4, 3] 3 = [2, 4, 4, 3]
   \<and> \<not> int (length (pad_sequence (build_vocab [''CC'']) [2, 4, 4, 3] 3)) \<le> 3"
  by (simp add: pad_sequence_def)

text \<open>
  C2 (amended): for every input sequence whose length exceeds \<open>max_len\<close>,
  \<^verbatim>\<open>pad_sequence\<close> raises no error and returns the input unchanged, so the result is
  longer than \<open>max_len\<close>.
\<close>

theorem pad_sequence_too_long_unchanged:
  assumes "max_len < int (length seq)"
  shows "pad_sequence v seq max_len = seq
         \<and> max_len < int (length (pad_sequence v seq max_len))"
  using assms by (simp add: pad_sequence_def)

theorem pad_sequence_too_long_unchanged_witness:
  "(5::int) < int (length [2, 4, 5, 6, 4, 7, 3 :: int])
   \<and> pad_sequence (build_vocab [''CC'']) [2, 4, 5, 6, 4, 7, 3] 5 = [2, 4, 5, 6, 4, 7, 3]"
proof -
  have h: "(5::int) < int (length [2, 4, 5, 6, 4, 7, 3 :: int])"
    by simp
  from pad_sequence_too_long_unchanged [OF h, of "build_vocab [''CC'']"] h
  show ?thesis by blast
qed

text \<open>
  C6. For every integer sequence of length at most \<open>L\<close>, \<^verbatim>\<open>pad_sequence\<close> returns a
  sequence of length exactly \<open>L\<close> that starts with the input, unchanged, and continues
  with the id of \<^verbatim>\<open><pad>\<close> (0) only.
\<close>

theorem pad_sequence_pads:
  assumes "int (length seq) \<le> L"
  shows "int (length (pad_sequence (build_vocab tokens) seq L)) = L
         \<and> take (length seq) (pad_sequence (build_vocab tokens) seq L) = seq
         \<and> drop (length seq) (pad_sequence (build_vocab tokens) seq L)
             = replicate (nat L - length seq) 0
         \<and> vocab_getitem (build_vocab tokens) ''<pad>'' = 0"
  using assms by (simp add: pad_sequence_def getitem_pad nat_diff_distrib')

theorem pad_sequence_pads_witness:
  "int (length [2, 4, 1, 4, 3 :: int]) \<le> 8
   \<and> int (length (pad_sequence (build_vocab [''CC'', ''N'']) [2, 4, 1, 4, 3] 8)) = 8
   \<and> pad_sequence (build_vocab [''CC'', ''N'']) [2, 4, 1, 4, 3] 8 = [2, 4, 1, 4, 3, 0, 0, 0]"
proof -
  have h: "int (length [2, 4, 1, 4, 3 :: int]) \<le> 8"
    by simp
  have len: "int (length (pad_sequence (build_vocab [''CC'', ''N'']) [2, 4, 1, 4, 3] 8)) = 8"
    by (rule pad_sequence_pads [OF h, THEN conjunct1])
  have val: "pad_sequence (build_vocab [''CC'', ''N'']) [2, 4, 1, 4, 3] 8
               = [2, 4, 1, 4, 3, 0, 0, 0]"
    by code_simp
  from h len val show ?thesis by blast
qed

section \<open>Claims about decoding\<close>

text \<open>
  C5 (as stated): the string returned by \<^verbatim>\<open>decode_sequence\<close> contains no special-token
  text, the unknown token included. Only \<^verbatim>\<open><pad>\<close>, \<^verbatim>\<open><sos>\<close> and
  \<^verbatim>\<open><eos>\<close> are replaced by the empty string: when the network emits the id of
  \<^verbatim>\<open><unk>\<close> (1) before the first end marker, the text \<^verbatim>\<open><unk>\<close> is part of the
  result.
\<close>

theorem decode_sequence_keeps_unk:
  "decode_sequence (build_vocab [''CC'', ''N'']) [2, 4, 1, 5, 3, 0, 0] = Inr ''CC<unk>N''
   \<and> py_in ''<unk>'' ''CC<unk>N''"
  by code_simp

text \<open>
  C5 (amended): for every vocabulary whose tokens other than the four special ones do not
  contain the character \<^verbatim>\<open><\<close>, and every sequence of ids of that vocabulary,
  \<^verbatim>\<open>decode_sequence\<close> turns the ids into tokens position by position, stops at the
  first \<^verbatim>\<open><eos>\<close>, concatenates the tokens before it with every \<^verbatim>\<open><pad>\<close> and
  \<^verbatim>\<open><sos>\<close> token left out, and the returned string contains no \<^verbatim>\<open><pad>\<close>,
  \<^verbatim>\<open><sos>\<close> or \<^verbatim>\<open><eos>\<close> text. The \<^verbatim>\<open><unk>\<close> tokens stay.
\<close>

theorem decode_sequence_strips_markers:
  assumes plain: "\<forall>t \<in> set tokens. CHR ''<'' \<notin> set t"
    and range: "\<forall>i \<in> set ids. 0 \<le> i \<and> i < int (length (itos (build_vocab tokens)))"
  shows "decode_sequence (build_vocab tokens) ids
           = Inr (concat (filter (\<lambda>t. t \<noteq> ''<pad>'' \<and> t \<noteq> ''<sos>'')
                   (takeWhile (\<lambda>t. t \<noteq> ''<eos>'')
                     (map (\<lambda>i. itos (build_vocab tokens) ! nat i) ids))))
         \<and> (\<forall>out. decode_sequence (build_vocab tokens) ids = Inr out \<longrightarrow>
               \<not> py_in ''<pad>'' out \<and> \<not> py_in ''<sos>'' out \<and> \<not> py_in ''<eos>'' out)"
proof -
  define v where "v = build_vocab tokens"
  define T where "T = takeWhile (\<lambda>t. t \<noteq> ''<eos>'') (map (\<lambda>i. itos v ! nat i) ids)"
  define T1 where "T1 = filter (\<lambda>t. t \<noteq> ''<pad>'') T"
  define T2 where "T2 = filter (\<lambda>t. t \<noteq> ''<sos>'') T1"
  have in_table: "t \<in> set (specials @ tokens)" if "t \<in> set T" for t
  proof -
    from that have "t \<in> set (map (\<lambda>i. itos v ! nat i) ids)"
      unfolding T_def by (rule set_takeWhileD [THEN conjunct1])
    then obtain i where "i \<in> set ids" "t = itos v ! nat i" by auto
    with range show ?thesis
      by (auto simp: v_def itos_build_vocab simp flip: set_append intro!: nth_mem)
  qed
  have not_eos: "t \<noteq> ''<eos>''" if "t \<in> set T" for t
    using that unfolding T_def by (auto dest: set_takeWhileD)
  have kind: "CHR ''<'' \<notin> set t \<or> t = ''<pad>'' \<or> t = ''<unk>'' \<or> t = ''<sos>''"
    if "t \<in> set T" for t
    using in_table [OF that] not_eos [OF that] plain by (auto simp: specials_def)
  have marker: "CHR ''<'' \<notin> set t
      \<or> (\<exists>b. t = CHR ''<'' # b \<and> CHR ''<'' \<notin> set b \<and> length b = Suc (Suc (Suc (Suc 0))))"
    if "t \<in> set T" for t
    using kind [OF that] by (elim disjE) simp_all
  have loop: "decode_loop v ids [] = Inr T"
    using decode_loop_takeWhile [of ids v "[]"] range by (simp add: T_def v_def)
  have r1: "py_replace ''<pad>'' [] (concat T) = concat T1"
    unfolding T1_def by (rule py_replace_concat) (use marker in simp)
  have r2: "py_replace ''<sos>'' [] (concat T1) = concat T2"
    unfolding T2_def by (rule py_replace_concat) (use marker in \<open>simp add: T1_def\<close>)
  have r3: "py_replace ''<eos>'' [] (concat T2) = concat (filter (\<lambda>t. t \<noteq> ''<eos>'') T2)"
    by (rule py_replace_concat) (use marker in \<open>simp add: T1_def T2_def\<close>)
  have "\<forall>t \<in> set T2. t \<noteq> ''<eos>''"
    using not_eos by (simp add: T1_def T2_def)
  then have "filter (\<lambda>t. t \<noteq> ''<eos>'') T2 = T2"
    by (simp only: filter_id_conv)
  with r3 have r3': "py_replace ''<eos>'' [] (concat T2) = concat T2" by simp
  have out: "decode_sequence v ids = Inr (concat T2)"
    by (simp add: decode_sequence_def loop r1 r2 r3')
  have T2_eq: "T2 = filter (\<lambda>t. t \<noteq> ''<pad>'' \<and> t \<noteq> ''<sos>'') T"
    by (simp add: T2_def T1_def conj_commute)
  have left: "CHR ''<'' \<notin> set t
      \<or> (\<exists>b. t = CHR ''<'' # b \<and> CHR ''<'' \<notin> set b \<and> length b = Suc (Suc (Suc (Suc 0))) \<and> b = ''unk>'')"
    if "t \<in> set T2" for t
  proof -
    from that have "t \<in> set T" "t \<noteq> ''<pad>''" "t \<noteq> ''<sos>''"
      by (auto simp: T1_def T2_def)
    with kind [of t] show ?thesis by auto
  qed
  have n1: "\<not> py_in ''<pad>'' (concat T2)"
    by (rule py_in_concat) (use left in fastforce)
  have n2: "\<not> py_in ''<sos>'' (concat T2)"
    by (rule py_in_concat) (use left in fastforce)
  have n3: "\<not> py_in ''<eos>'' (concat T2)"
    by (rule py_in_concat) (use left in fastforce)
  from out n1 n2 n3 show ?thesis
    unfolding T2_eq T_def v_def by simp
qed

theorem decode_sequence_strips_markers_witness:
  "decode_sequence (build_vocab [''CC'', ''N'']) [2, 4, 0, 1, 5, 3, 0, 0] = Inr ''CC<unk>N''
   \<and> \<not> py_in ''<pad>'' ''CC<unk>N'' \<and> \<not> py_in ''<sos>'' ''CC<unk>N''
   \<and> \<not> py_in ''<eos>'' ''CC<unk>N''"
proof -
  have plain: "\<forall>t \<in> set [''CC'', ''N'']. CHR ''<'' \<notin> set t"
    by simp
  have range: "\<forall>i \<in> set [2, 4, 0, 1, 5, 3, 0, 0].
      0 \<le> i \<and> i < int (length (itos (build_vocab [''CC'', ''N''])))"
    by (simp add: itos_build_vocab specials_def)
  have val: "decode_sequence (build_vocab [''CC'', ''N'']) [2, 4, 0, 1, 5, 3, 0, 0]
               = Inr ''CC<unk>N''"
    by code_simp
  from decode_sequence_strips_markers [OF plain range, THEN conjunct2] val
  have "\<not> py_in ''<pad>'' ''CC<unk>N'' \<and> \<not> py_in ''<sos>'' ''CC<unk>N''
        \<and> \<not> py_in ''<eos>'' ''CC<unk>N''"
    by blast
  with val show ?thesis by blast
qed

section \<open>Claims about the reconstruction evaluator\<close>

lemma foldl_eval_step:
  "foldl (eval_step decode) st smiles_list =
     \<lparr>correct_count = correct_count st + length (filter (\<lambda>s. s = decode s) smiles_list),
      total_levenshtein_distance = total_levenshtein_distance st
        + (\<Sum>s\<leftarrow>filter (\<lambda>s. s \<noteq> decode s) smiles_list. levenshtein (py_upper s) (decode s)),
      total_mismatched_smiles_length = total_mismatched_smiles_length st
        + (\<Sum>s\<leftarrow>filter (\<lambda>s. s \<noteq> decode s) smiles_list. length s),
      mismatched_count = mismatched_count st
        + length (filter (\<lambda>s. s \<noteq> decode s) smiles_list)\<rparr>"
  by (induction smiles_list arbitrary: st) (simp_all add: eval_step_def Let_def)


text \<open>
  C3. For every non-empty list of SMILES strings that all reconstruct exactly,
  \<^verbatim>\<open>evaluate_reconstruction\<close> returns accuracy 100, average Levenshtein distance 0
  and average mismatched length 0, and does not divide by zero. In general, on a non-empty
  list, the accuracy is the number of exact matches divided by the length of the list,
  times 100, and the two averages are taken over the mismatches only (0 when there is
  none).
\<close>

theorem evaluate_reconstruction_metrics:
  assumes "smiles_list \<noteq> []"
  shows "((\<forall>s \<in> set smiles_list. decode s = s) \<longrightarrow>
            evaluate_reconstruction decode smiles_list = Inr (100, 0, 0))
         \<and> evaluate_reconstruction decode smiles_list =
             Inr (real (length (filter (\<lambda>s. s = decode s) smiles_list))
                    / real (length smiles_list) * 100,
                  if filter (\<lambda>s. s \<noteq> decode s) smiles_list = [] then 0
                  else real (\<Sum>s\<leftarrow>filter (\<lambda>s. s \<noteq> decode s) smiles_list.
                               levenshtein (py_upper s) (decode s))
                       / real (length (filter (\<lambda>s. s \<noteq> decode s) smiles_list)),
                  if filter (\<lambda>s. s \<noteq> decode s) smiles_list = [] then 0
                  else real (\<Sum>s\<leftarrow>filter (\<lambda>s. s \<noteq> decode s) smiles_list. length s)
                       / real (length (filter (\<lambda>s. s \<noteq> decode s) smiles_list)))"
proof -
  have general: "evaluate_reconstruction decode smiles_list =
             Inr (real (length (filter (\<lambda>s. s = decode s) smiles_list))
                    / real (length smiles_list) * 100,
                  if filter (\<lambda>s. s \<noteq> decode s) smiles_list = [] then 0
                  else real (\<Sum>s\<leftarrow>filter (\<lambda>s. s \<noteq> decode s) smiles_list.
                               levenshtein (py_upper s) (decode s))
                       / real (length (filter (\<lambda>s. s \<noteq> decode s) smiles_list)),
                  if filter (\<lambda>s. s \<noteq> decode s) smiles_list = [] then 0
                  else real (\<Sum>s\<leftarrow>filter (\<lambda>s. s \<noteq> decode s) smiles_list. length s)
                       / real (length (filter (\<lambda>s. s \<noteq> decode s) smiles_list)))"
    using assms by (simp add: evaluate_reconstruction_def Let_def foldl_eval_step)
  have "evaluate_reconstruction decode smiles_list = Inr (100, 0, 0)"
    if all: "\<forall>s \<in> set smiles_list. decode s = s"
  proof -
    from all have "filter (\<lambda>s. s \<noteq> decode s) smiles_list = []"
      by (auto simp: filter_empty_conv)
    moreover from all have "filter (\<lambda>s. s = decode s) smiles_list = smiles_list"
      by (auto simp: filter_id_conv)
    ultimately show ?thesis
      using assms by (simp add: general)
  qed
  with general show ?thesis by blast
qed

theorem evaluate_reconstruction_metrics_witness:
  "[''CCO'', ''CC''] \<noteq> []
   \<and> evaluate_reconstruction (\<lambda>s. s) [''CCO'', ''CC''] = Inr (100, 0, 0)
   \<and> evaluate_reconstruction (\<lambda>s. if s = ''CCO'' then ''CCN'' else s)
         [''CCO'', ''CC'', ''c1ccccc1'', ''CCO''] = Inr (50, 1, 3)"
proof -
  have ne: "[''CCO'', ''CC''] \<noteq> []"
    by simp
  have all: "\<forall>s \<in> set [''CCO'', ''CC'']. (\<lambda>s. s) s = s"
    by simp
  from evaluate_reconstruction_metrics [OF ne, of "\<lambda>s. s", THEN conjunct1] all
  have exact: "evaluate_reconstruction (\<lambda>s. s) [''CCO'', ''CC''] = Inr (100, 0, 0)"
    by blast
  have ne': "[''CCO'', ''CC'', ''c1ccccc1'', ''CCO''] \<noteq> []"
    by simp
  have mixed: "evaluate_reconstruction (\<lambda>s. if s = ''CCO'' then ''CCN'' else s)
         [''CCO'', ''CC'', ''c1ccccc1'', ''CCO''] = Inr (50, 1, 3)"
    using evaluate_reconstruction_metrics [OF ne', of "\<lambda>s. if s = ''CCO'' then ''CCN'' else s",
        THEN conjunct2]
    by (simp add: py_upper_def)
  from ne exact mixed show ?thesis by blast
qed

section \<open>Claims about early stopping\<close>

lemma training_loop_append:
  "training_loop patience min_delta epoch (xs @ ys) st =
     (case training_loop patience min_delta epoch xs st of
        (st', None) \<Rightarrow> training_loop patience min_delta (epoch + length xs) ys st'
      | (st', Some n) \<Rightarrow> (st', Some n))"
  by (induction xs arbitrary: epoch st) (simp_all add: Let_def)

lemma early_stopping_no_improvement:
  assumes "\<not> double_less w (double_sub (best_val_loss st) min_delta)"
  shows "early_stopping min_delta epoch w st = st\<lparr>patience_counter := patience_counter st + 1\<rparr>"
  using assms by (simp add: early_stopping_def)

lemma training_loop_runs_out:
  assumes "best_val_loss st = best"
    and "\<forall>w \<in> set ws. \<not> double_less w (double_sub best min_delta)"
    and "patience_counter st + length ws = p"
    and "ws \<noteq> []"
  shows "training_loop (int p) min_delta epoch (ws @ rest) st
           = (st\<lparr>patience_counter := p\<rparr>, Some (epoch + length ws))"
  using assms
proof (induction ws arbitrary: epoch st)
  case Nil
  then show ?case by simp
next
  case (Cons w ws)
  let ?st = "st\<lparr>patience_counter := patience_counter st + 1\<rparr>"
  have step: "early_stopping min_delta epoch w st = ?st"
    using Cons.prems by (simp add: early_stopping_no_improvement)
  show ?case
  proof (cases "ws = []")
    case True
    with Cons.prems step show ?thesis by (simp add: Let_def)
  next
    case False
    have "training_loop (int p) min_delta (epoch + 1) (ws @ rest) ?st
            = (?st\<lparr>patience_counter := p\<rparr>, Some (epoch + 1 + length ws))"
      using Cons.prems False by (intro Cons.IH) auto
    moreover have "\<not> int p \<le> int (patience_counter ?st)"
      using Cons.prems False by (cases ws) auto
    ultimately show ?thesis
      using step by (simp add: Let_def)
  qed
qed

text \<open>
  The control flow of the loop, for the test as the code computes it: when the loop
  reaches an epoch whose loss passes the test of the loop, the budget holds \<open>p\<close> further
  epochs and none of them passes the test against that loss, then with patience \<open>p\<close>
  the loop stops exactly \<open>p\<close> epochs later and its last checkpoint is that epoch's.
\<close>

lemma training_loop_stops_after_patience:
  assumes reach: "train (int p) min_delta earlier = (st, None)"
    and improve: "double_less v (double_sub (best_val_loss st) min_delta)"
    and len: "length later = p"
    and flat: "\<forall>w \<in> set later. \<not> double_less w (double_sub v min_delta)"
  shows "train (int p) min_delta (earlier @ [v] @ later @ rest)
           = (\<lparr>best_val_loss = v, patience_counter = p,
               saved_epoch = Some (length earlier + 1)\<rparr>,
              Some (length earlier + 1 + p))"
proof -
  let ?best = "\<lparr>best_val_loss = v, patience_counter = 0,
                saved_epoch = Some (length earlier + 1)\<rparr>"
  have at_v: "early_stopping min_delta (length earlier) v st = ?best"
    using improve by (simp add: early_stopping_def)
  have tail: "training_loop (int p) min_delta (length earlier) ([v] @ later @ rest) st
                = (?best\<lparr>patience_counter := p\<rparr>, Some (length earlier + 1 + p))"
  proof (cases "p = 0")
    case True
    with at_v show ?thesis by (simp add: Let_def)
  next
    case False
    with len have "later \<noteq> []" by auto
    then have "training_loop (int p) min_delta (length earlier + 1) (later @ rest) ?best
                = (?best\<lparr>patience_counter := p\<rparr>, Some (length earlier + 1 + length later))"
      using flat len by (intro training_loop_runs_out [where best = v]) auto
    with False at_v len show ?thesis by (simp add: Let_def)
  qed
  have "train (int p) min_delta (earlier @ [v] @ later @ rest)
          = training_loop (int p) min_delta (0 + length earlier) ([v] @ later @ rest) st"
    using reach unfolding train_def by (subst training_loop_append) simp
  with tail show ?thesis by simp
qed

text \<open>
  C1. Every epoch whose validation loss improves on the best seen by at least
  \<open>min_delta\<close> resets the patience counter, records the new best and saves a checkpoint.
  The loop misses such epochs. With the notebook's \<^verbatim>\<open>min_delta = 1e-4\<close>
  (\<open>7378697629483821 \<cdot> 2\<^sup>-\<^sup>6\<^sup>6\<close>) and the validation losses \<^verbatim>\<open>0.1\<close>
  (\<open>3602879701896397 \<cdot> 2\<^sup>-\<^sup>5\<^sup>5\<close>) and \<^verbatim>\<open>0.0999\<close>
  (\<open>7198553644389001 \<cdot> 2\<^sup>-\<^sup>5\<^sup>6\<close>), the second epoch improves on the first by more than
  \<open>min_delta\<close>: the difference of the two losses, computed in binary64, is not below
  \<open>min_delta\<close>. But \<^verbatim>\<open>best_val_loss - min_delta\<close> rounds to \<^verbatim>\<open>0.0999\<close>, the test
  \<^verbatim>\<open>epoch_val_loss < best_val_loss - min_delta\<close> is false, and the loop increments the
  counter, keeps the old best and saves nothing. The same happens on the boundary without
  any rounding: with \<^verbatim>\<open>min_delta = 0.5\<close>, a loss of \<^verbatim>\<open>0.5\<close> after a best of
  \<^verbatim>\<open>1.0\<close> is an improvement by exactly \<open>min_delta\<close> and is not counted.
\<close>

theorem early_stopping_misses_improvement:
  "train 20 (Finite 7378697629483821 (- 66))
     [Finite 3602879701896397 (- 55), Finite 7198553644389001 (- 56)]
     = (\<lparr>best_val_loss = Finite 3602879701896397 (- 55), patience_counter = 1,
         saved_epoch = Some 1\<rparr>, None)
   \<and> \<not> double_less
         (double_sub (Finite 3602879701896397 (- 55)) (Finite 7198553644389001 (- 56)))
         (Finite 7378697629483821 (- 66))
   \<and> double_sub (Finite 3602879701896397 (- 55)) (Finite 7378697629483821 (- 66))
       = Finite 7198553644389001 (- 56)
   \<and> train 20 (Finite 1 (- 1)) [Finite 1 0, Finite 1 (- 1)]
     = (\<lparr>best_val_loss = Finite 1 0, patience_counter = 1, saved_epoch = Some 1\<rparr>, None)"
  by code_simp

section \<open>Claims about the training criterion\<close>

text \<open>
  C7. The criterion masks padding: the positions whose target is the id of
  \<^verbatim>\<open><pad>\<close> contribute nothing to the loss. Appending any number of positions with
  target \<^verbatim>\<open><pad>\<close> to a batch, whatever their logits, leaves the loss unchanged (so
  the loss is the same whether the padded length is \<open>k\<close> or \<open>k + 100\<close>), and the loss
  of a batch is the loss of its positions that are not padding.
\<close>

theorem criterion_ignores_padding:
  "criterion v (batch @ map (\<lambda>logits. (logits, vocab_getitem v ''<pad>'')) padding)
     = criterion v batch
   \<and> criterion v batch
     = criterion v (filter (\<lambda>(logits, target). target \<noteq> vocab_getitem v ''<pad>'') batch)"
proof -
  have "filter (\<lambda>(logits, target). target \<noteq> i) (map (\<lambda>logits. (logits, i)) padding) = []" for i :: int
    by (induction padding) simp_all
  then show ?thesis
    by (simp add: criterion_def cross_entropy_loss_def)
qed

theorem criterion_ignores_padding_witness:
  "criterion (build_vocab [''CC''])
       ([([0, 0, 0, 0, 0], 2), ([0, 0, 0, 0, 0], 4), ([0, 0, 0, 0, 0], 3)]
          @ map (\<lambda>logits. (logits, vocab_getitem (build_vocab [''CC'']) ''<pad>''))
              (replicate 100 [7, 0, 0, 0, 0]))
     = Inr (Some (ln 5))"
proof -
  have "criterion (build_vocab [''CC''])
          [([0, 0, 0, 0, 0], 2), ([0, 0, 0, 0, 0], 4), ([0, 0, 0, 0, 0], 3)] = Inr (Some (ln 5))"
    by (simp add: criterion_def cross_entropy_loss_def getitem_pad ln_div)
  with criterion_ignores_padding [THEN conjunct1, of "build_vocab [''CC'']"
      "[([0, 0, 0, 0, 0], 2), ([0, 0, 0, 0, 0], 4), ([0, 0, 0, 0, 0], 3)]"
      "replicate 100 [7, 0, 0, 0, 0]"]
  show ?thesis by simp
qed

section \<open>Claims about the vocabulary builder\<close>







end
